theory Spec2Isabelle
  imports Main
begin

section \<open>Byte strings\<close>

text \<open>
  A Go string is a sequence of bytes; \<open>len\<close>, indexing and slicing count bytes. It is
  modelled as \<^typ>\<open>string\<close>, a list of 8-bit characters. The four characters that
  \<open>autoruns_windows.go\<close> names and that cannot stand in a literal get a name here.
\<close>

abbreviation backslash :: char where "backslash \<equiv> CHR 0x5C"
abbreviation dquote :: char where "dquote \<equiv> CHR 0x22"
abbreviation tab :: char where "tab \<equiv> CHR 0x09"
abbreviation space :: char where "space \<equiv> CHR 0x20"

text \<open>
  Slices \<open>s[lo:]\<close>, \<open>s[:hi]\<close> and \<open>s[lo:hi]\<close> with Go's \<open>int\<close> indices. Go
  panics unless \<open>0 \<le> lo \<le> hi \<le> len(s)\<close>. Where the code tests the length before it
  slices (lines 35, 37, 40, 54 and 84) the slice is in range by that test; where the
  index comes out of a search (lines 58, 59, 75 and 80) the model tests the bound and
  yields \<open>SliceBounds\<close> outside it.
\<close>

definition sliceFrom :: "string \<Rightarrow> int \<Rightarrow> string" where
  "sliceFrom s lo = drop (nat lo) s"

definition sliceTo :: "string \<Rightarrow> int \<Rightarrow> string" where
  "sliceTo s hi = take (nat hi) s"

definition slice :: "string \<Rightarrow> int \<Rightarrow> int \<Rightarrow> string" where
  "slice s lo hi = drop (nat lo) (take (nat hi) s)"

subsection \<open>The functions of Go's \<open>strings\<close> package that \<open>parsePath\<close> calls\<close>

text \<open>\<open>strings.HasPrefix\<close>: \<open>len(s) >= len(prefix) && s[:len(prefix)] == prefix\<close>.\<close>

definition HasPrefix :: "string \<Rightarrow> string \<Rightarrow> bool" where
  "HasPrefix s p = (length p \<le> length s \<and> take (length p) s = p)"

text \<open>
  \<open>strings.ToLower\<close> on the bytes of ASCII: \<open>'A'..'Z'\<close> move by \<open>'a' - 'A'\<close>, every
  other byte stays. Go lowers whole code points; the only code points outside ASCII whose
  lower case is an ASCII letter are U+0130 and U+212A, which give \<open>i\<close> and \<open>k\<close>, and a
  byte that is not valid UTF-8 becomes U+FFFD. \<open>parsePath\<close> only compares the result
  with \<open>\systemroot\<close> and with \<open>system32\<close>, which hold neither letter, so the two
  comparisons come out as in Go for every byte string.
\<close>

definition toLowerByte :: "char \<Rightarrow> char" where
  "toLowerByte c =
     (let n = (of_char c :: nat) in if 65 \<le> n \<and> n \<le> 90 then char_of (n + 32) else c)"

definition ToLower :: "string \<Rightarrow> string" where
  "ToLower s = map toLowerByte s"

text \<open>
  \<open>strings.Index(s, substr)\<close>: the index of the first instance of \<open>substr\<close> in
  \<open>s\<close>, or \<open>-1\<close>.
\<close>

fun Index :: "string \<Rightarrow> string \<Rightarrow> int" where
  "Index [] substr = (if substr = [] then 0 else - 1)"
| "Index (c # cs) substr =
     (if HasPrefix (c # cs) substr then 0
      else (let r = Index cs substr in if r < 0 then - 1 else r + 1))"

text \<open>
  \<open>strings.IndexAny(s, chars)\<close>: the index of the first byte of \<open>s\<close> that is one of
  \<open>chars\<close>, or \<open>-1\<close>. The only call passes the ASCII characters space and tab, which
  are never bytes of a longer UTF-8 sequence.
\<close>

fun IndexAny :: "string \<Rightarrow> string \<Rightarrow> int" where
  "IndexAny [] chars = - 1"
| "IndexAny (c # cs) chars =
     (if c \<in> set chars then 0
      else (let r = IndexAny cs chars in if r < 0 then - 1 else r + 1))"

text \<open>
  \<open>strings.Replace(s, old, new, -1)\<close>: every non-overlapping instance of \<open>old\<close>,
  found from left to right, is replaced by \<open>new\<close>. Both calls pass a slice of 11 or of
  8 bytes as \<open>old\<close>; for an empty \<open>old\<close> (not reached) Go puts \<open>new\<close> in front of
  every code point and at the end, written here per byte.
\<close>

function Replace :: "string \<Rightarrow> string \<Rightarrow> string \<Rightarrow> string" where
  "Replace s old new =
     (if old = [] then new @ concat (map (\<lambda>c. c # new) s)
      else if s = [] then []
      else if HasPrefix s old then new @ Replace (drop (length old) s) old new
      else hd s # Replace (tl s) old new)"
  by pat_completeness auto
termination
  by (relation "measure (\<lambda>(s, old, new). length s)") auto

declare Replace.simps [simp del]

section \<open>Errors and the machine\<close>

text \<open>
  \<open>parsePath\<close> makes its own errors with \<open>errors.New\<close> and passes on the error of
  \<open>registry.ExpandString\<close>, a Windows error number. \<open>ExecError\<close> is the error of
  \<open>exec.LookPath\<close>, \<open>HashUnavailable\<close> the error of a hash that could not be
  computed. \<open>SliceBounds\<close> is not an error value: it stands for the run-time panic of
  a slice out of range, which no caller would catch.
\<close>

datatype error = New string | Errno nat | ExecError | HashUnavailable | SliceBounds

abbreviation EmptyInputError :: error where
  "EmptyInputError \<equiv> New ''empty path''"
abbreviation UnclosedQuoteError :: error where
  "UnclosedQuoteError \<equiv> New ''unclosed quote''"
abbreviation ExecutableNotFoundError :: error where
  "ExecutableNotFoundError \<equiv> New ''executable not found''"

text \<open>
  What the code reads from the machine, and the library functions whose result depends
  on Unicode tables or on Windows path rules, are parameters:
  \<^item> \<open>Getenv\<close>: \<open>os.Getenv\<close>;
  \<^item> \<open>ExpandString\<close>: \<open>registry.ExpandString\<close>, which expands \<open>%VAR%\<close>
    references and may fail with an error number;
  \<^item> \<open>LookPath\<close>: \<open>exec.LookPath\<close>, the executable locator, \<open>None\<close> when it
    returns an error;
  \<^item> \<open>Clean\<close>: \<open>filepath.Clean\<close>;
  \<^item> \<open>VolumeNameLen\<close>: the length of \<open>filepath.VolumeName\<close>, used by \<open>filepath.Base\<close>;
  \<^item> \<open>TrimSpace\<close>: \<open>strings.TrimSpace\<close>, which trims Unicode white space;
  \<^item> \<open>hashOf path algo\<close>: the hex digest of the file at \<open>path\<close>, \<open>None\<close> when the
    file cannot be opened or read.
\<close>

record env =
  Getenv :: "string \<Rightarrow> string"
  ExpandString :: "string \<Rightarrow> nat + string"
  LookPath :: "string \<Rightarrow> string option"
  Clean :: "string \<Rightarrow> string"
  VolumeNameLen :: "string \<Rightarrow> nat"
  TrimSpace :: "string \<Rightarrow> string"
  hashOf :: "string \<Rightarrow> string \<Rightarrow> string option"

section \<open>\<open>parsePath\<close>\<close>

text \<open>Lines 34 to 36: the kernel object-namespace prefix is cut off.\<close>

definition kernelPrefix :: string where
  "kernelPrefix = [backslash, CHR ''?'', CHR ''?'', backslash]"

definition stripKernelPrefix :: "string \<Rightarrow> string" where
  "stripKernelPrefix entryValue =
     (if HasPrefix entryValue kernelPrefix then sliceFrom entryValue 4 else entryValue)"

text \<open>Lines 37 to 39: a leading \<open>systemroot\<close> after a backslash, in any case.\<close>

definition substSystemRoot :: "env \<Rightarrow> string \<Rightarrow> string" where
  "substSystemRoot env entryValue =
     (if 11 \<le> length entryValue \<and> ToLower (sliceTo entryValue 11) = backslash # ''systemroot''
      then Replace entryValue (sliceTo entryValue 11) (Getenv env ''SystemRoot'')
      else entryValue)"

text \<open>Lines 40 to 42: a leading \<open>system32\<close>, in any case.\<close>

definition substSystem32 :: "env \<Rightarrow> string \<Rightarrow> string" where
  "substSystem32 env entryValue =
     (if 8 \<le> length entryValue \<and> ToLower (sliceTo entryValue 8) = ''system32''
      then Replace entryValue (sliceTo entryValue 8)
             (Getenv env ''SystemRoot'' @ backslash # ''System32'')
      else entryValue)"

text \<open>Lines 33 to 47: the three replacements in the order of the code, then the expansion.\<close>

definition replaceRoots :: "env \<Rightarrow> string \<Rightarrow> string" where
  "replaceRoots env entryValue =
     substSystem32 env (substSystemRoot env (stripKernelPrefix entryValue))"

definition normalizer :: "env \<Rightarrow> string \<Rightarrow> error + string" where
  "normalizer env entryValue =
     (case ExpandString env (replaceRoots env entryValue) of
        Inl errno \<Rightarrow> Inl (Errno errno)
      | Inr expanded \<Rightarrow> Inr expanded)"

text \<open>Lines 284 to 290.\<close>

definition cleanPath :: "env \<Rightarrow> string \<Rightarrow> error + string" where
  "cleanPath env file =
     (case LookPath env file of
        None \<Rightarrow> Inl ExecError
      | Some file' \<Rightarrow> Inr (Clean env file'))"

text \<open>
  Lines 70 to 88, one pass through the body of the loop, entered with \<open>spaceIndex\<close>:
  it leaves the loop with a result (the \<open>return\<close> of line 73, or \<open>executable\<close> and
  \<open>arguments\<close> as they stand at the \<open>break\<close>), or goes round again with the new
  \<open>spaceIndex\<close>. The two tests that yield \<open>SliceBounds\<close> are the bounds of the slices
  \<open>entryValue[spaceIndex+1:]\<close> of line 75 and \<open>entryValue[:spaceIndex]\<close> of line 80.
\<close>

datatype pass = Done "error + string \<times> string" | Again int

definition loopBody :: "env \<Rightarrow> string \<Rightarrow> int \<Rightarrow> pass" where
  "loopBody env entryValue spaceIndex =
     (if spaceIndex = int (length entryValue) then Done (Inl ExecutableNotFoundError)
      else if spaceIndex + 1 < 0 \<or> int (length entryValue) < spaceIndex + 1
      then Done (Inl SliceBounds)
      else
        let nextSpace = IndexAny (sliceFrom entryValue (spaceIndex + 1)) [space, tab];
            spaceIndex' = (if nextSpace < 0 then int (length entryValue)
                           else spaceIndex + (nextSpace + 1))
        in if spaceIndex' < 0 \<or> int (length entryValue) < spaceIndex'
           then Done (Inl SliceBounds)
           else
             let possibleExecutable = sliceTo entryValue spaceIndex'
             in case LookPath env possibleExecutable of
                  Some exePath \<Rightarrow>
                    Done (Inr (exePath,
                               if spaceIndex' < int (length entryValue)
                               then sliceFrom entryValue (spaceIndex' + 1) else []))
                | None \<Rightarrow> Again spaceIndex')"

text \<open>Lines 69 to 88: the loop, entered with \<open>spaceIndex\<close>; \<open>parsePath\<close> enters it with \<open>0\<close>.\<close>

function searchExecutable :: "env \<Rightarrow> string \<Rightarrow> int \<Rightarrow> error + string \<times> string" where
  "searchExecutable env entryValue spaceIndex =
     (case loopBody env entryValue spaceIndex of
        Done result \<Rightarrow> result
      | Again spaceIndex' \<Rightarrow> searchExecutable env entryValue spaceIndex')"
  by pat_completeness auto
termination
proof (relation "measure (\<lambda>(env, entryValue, spaceIndex). nat (int (length entryValue) - spaceIndex))")
  show "wf (measure (\<lambda>(env, entryValue, spaceIndex). nat (int (length entryValue) - spaceIndex)))"
    by simp
next
  fix env :: env and entryValue :: string and spaceIndex spaceIndex' :: int
  assume again: "loopBody env entryValue spaceIndex = Again spaceIndex'"
  let ?n = "IndexAny (sliceFrom entryValue (spaceIndex + 1)) [space, tab]"
  have found: "0 \<le> IndexAny s chars \<or> IndexAny s chars = - 1" for s chars
    by (induction s) (auto simp: Let_def)
  from again have "spaceIndex < int (length entryValue)"
    and "spaceIndex' = (if ?n < 0 then int (length entryValue) else spaceIndex + (?n + 1))"
    by (auto simp: loopBody_def Let_def split: if_splits option.splits)
  with found [of "sliceFrom entryValue (spaceIndex + 1)" "[space, tab]"]
  have "spaceIndex < spaceIndex'"
    by (auto split: if_splits)
  then show "((env, entryValue, spaceIndex'), (env, entryValue, spaceIndex))
      \<in> measure (\<lambda>(env, entryValue, spaceIndex). nat (int (length entryValue) - spaceIndex))"
    using \<open>spaceIndex < int (length entryValue)\<close> by simp
qed

declare searchExecutable.simps [simp del]

text \<open>
  The same loop with a count of the passes it may make: \<open>None\<close> when the count runs out
  before the loop is left.
\<close>

fun searchPasses :: "nat \<Rightarrow> env \<Rightarrow> string \<Rightarrow> int \<Rightarrow> (error + string \<times> string) option" where
  "searchPasses 0 env entryValue spaceIndex = None"
| "searchPasses (Suc n) env entryValue spaceIndex =
     (case loopBody env entryValue spaceIndex of
        Done result \<Rightarrow> Some result
      | Again spaceIndex' \<Rightarrow> searchPasses n env entryValue spaceIndex')"

text \<open>
  Lines 91 to 95, the end of \<open>parsePath\<close>: the arguments are trimmed, and the executable
  is replaced by its cleaned path when \<open>cleanPath\<close> succeeds.
\<close>

definition finish :: "env \<Rightarrow> string \<Rightarrow> string \<Rightarrow> string \<times> string" where
  "finish env executable arguments =
     (case cleanPath env executable of
        Inr v \<Rightarrow> (v, TrimSpace env arguments)
      | Inl err \<Rightarrow> (executable, TrimSpace env arguments))"

text \<open>
  Lines 49 to 95: the split of the expanded string into executable and arguments. The
  test that yields \<open>SliceBounds\<close> is the bound of the slices of lines 58 and 59.
\<close>

definition resolve :: "env \<Rightarrow> string \<Rightarrow> error + string \<times> string" where
  "resolve env entryValue =
     (if HasPrefix entryValue [dquote] then
        (let closingQuote = Index (sliceFrom entryValue 1) [dquote] in
         if closingQuote < 0 then Inl UnclosedQuoteError
         else if int (length entryValue) < closingQuote + 2 then Inl SliceBounds
         else Inr (finish env (slice entryValue 1 (closingQuote + 1))
                              (sliceFrom entryValue (closingQuote + 2))))
      else
        (case searchExecutable env entryValue 0 of
           Inl err \<Rightarrow> Inl err
         | Inr (executable, arguments) \<Rightarrow> Inr (finish env executable arguments)))"

text \<open>
  Lines 29 to 96. Go returns \<open>("", "", err)\<close> on an error; the two empty strings are
  never read by the caller and are left out.
\<close>

definition parsePath :: "env \<Rightarrow> string \<Rightarrow> error + string \<times> string" where
  "parsePath env entryValue =
     (if entryValue = [] then Inl EmptyInputError
      else case normalizer env entryValue of
             Inl err \<Rightarrow> Inl err
           | Inr expanded \<Rightarrow> resolve env expanded)"

section \<open>\<open>stringToAutorun\<close>\<close>

text \<open>The struct \<open>Autorun\<close>, with the fields that lines 115 to 126 fill.\<close>

record Autorun =
  Type :: string
  Location :: string
  ImagePath :: string
  ImageName :: string
  Arguments :: string
  MD5 :: string
  SHA1 :: string
  SHA256 :: string
  Entry :: string
  LaunchString :: string

text \<open>
  \<open>filepath.Base\<close> of Go's standard library on Windows, where backslash and slash
  separate: the empty path gives a dot; trailing separators and the volume name are
  dropped; the last element is what follows the last separator; a path of separators
  only gives one separator.
\<close>

definition IsPathSeparator :: "char \<Rightarrow> bool" where
  "IsPathSeparator c = (c = backslash \<or> c = CHR ''/'')"

definition Base :: "env \<Rightarrow> string \<Rightarrow> string" where
  "Base env path =
     (if path = [] then ''.''
      else
        let stripped = rev (dropWhile IsPathSeparator (rev path));
            local = drop (VolumeNameLen env stripped) stripped;
            element = rev (takeWhile (\<lambda>c. \<not> IsPathSeparator c) (rev local))
        in if element = [] then [backslash] else element)"

text \<open>
  Modelled from the spec: \<open>files.HashFile\<close> belongs to the package
  \<open>github.com/botherder/go-files\<close>, which is not under src/. The spec has the digests
  as "hex digest strings, empty if the file could not be hashed": a pair of the digest
  and no error, or of the empty string and an error.
\<close>

definition HashFile :: "env \<Rightarrow> string \<Rightarrow> string \<Rightarrow> string \<times> error option" where
  "HashFile env filePath algo =
     (case hashOf env filePath algo of
        None \<Rightarrow> ([], Some HashUnavailable)
      | Some digest \<Rightarrow> (digest, None))"

text \<open>Lines 98 to 129. The record is returned by value; nothing else holds the pointer.\<close>

definition stringToAutorun :: "env \<Rightarrow> string \<Rightarrow> string \<Rightarrow> string \<Rightarrow> bool \<Rightarrow> string \<Rightarrow> Autorun" where
  "stringToAutorun env entryType entryLocation entryValue toParse entry =
     (let launchString = entryValue;
          (imagePath, argsString) =
            (if toParse then
               (case parsePath env entryValue of
                  Inr (executable, args) \<Rightarrow> (executable, args)
                | Inl err \<Rightarrow> (entryValue, []))
             else (entryValue, []));
          md5 = fst (HashFile env imagePath ''md5'');
          sha1 = fst (HashFile env imagePath ''sha1'');
          sha256 = fst (HashFile env imagePath ''sha256'')
      in \<lparr>Type = entryType,
          Location = entryLocation,
          ImagePath = imagePath,
          ImageName = Base env imagePath,
          Arguments = argsString,
          MD5 = md5,
          SHA1 = sha1,
          SHA256 = sha256,
          Entry = entry,
          LaunchString = launchString\<rparr>)"

section \<open>The progressive-prefix search of the specification\<close>

text \<open>
  The search as the specification words it. A candidate is a non-empty prefix of the
  string that ends just before a space or a tab, or the whole string;
  \<open>candidateEnds\<close> lists the lengths of the candidates in ascending order. The first
  candidate that the locator resolves is accepted, and the path the locator gives for it
  is the executable; what follows the white space after the candidate is the argument
  tail; when no candidate resolves the search fails. The argument tail is returned
  trimmed. The executable is returned cleaned: the path is given to the locator once
  more and what it resolves to is canonicalized, and when the locator does not resolve
  it the path is left as it is. White space that ends a candidate is a space or a tab,
  as in the command lines of \<open>CreateProcess\<close>; a newline ends none.
\<close>

definition candidateEnds :: "string \<Rightarrow> nat list" where
  "candidateEnds s =
     filter (\<lambda>i. i = length s \<or> s ! i \<in> set [space, tab]) [1..<Suc (length s)]"

fun firstResolved :: "env \<Rightarrow> string \<Rightarrow> nat list \<Rightarrow> (nat \<times> string) option" where
  "firstResolved env s [] = None"
| "firstResolved env s (i # ends) =
     (case LookPath env (take i s) of
        Some exePath \<Rightarrow> Some (i, exePath)
      | None \<Rightarrow> firstResolved env s ends)"

definition prefixSearch :: "env \<Rightarrow> string \<Rightarrow> error + string \<times> string" where
  "prefixSearch env s =
     (case firstResolved env s (candidateEnds s) of
        None \<Rightarrow> Inl ExecutableNotFoundError
      | Some (i, exePath) \<Rightarrow>
          Inr (case LookPath env exePath of
                 None \<Rightarrow> exePath
               | Some located \<Rightarrow> Clean env located,
               TrimSpace env (drop (Suc i) s)))"

text \<open>The candidates that end after index \<open>i\<close>: what is left of the search in a pass.\<close>

definition endsAfter :: "string \<Rightarrow> nat \<Rightarrow> nat list" where
  "endsAfter s i =
     filter (\<lambda>k. k = length s \<or> s ! k \<in> set [space, tab]) [Suc i..<Suc (length s)]"

section \<open>A machine to run the code on\<close>

text \<open>
  A machine for the examples: the system root is \<open>C:\Windows\<close>, nothing needs
  expanding, \<open>lookup\<close> lists what the locator finds and where, paths are clean as they
  are, every file the locator finds has the digest \<open>00\<close>, no other path can be
  hashed, and only ASCII white space is trimmed.
\<close>

definition windowsDir :: string where
  "windowsDir = ''C:'' @ backslash # ''Windows''"

definition asciiSpace :: "char \<Rightarrow> bool" where
  "asciiSpace c = (c \<in> set [tab, CHR 0x0A, CHR 0x0B, CHR 0x0C, CHR 0x0D, space])"

definition trimAscii :: "string \<Rightarrow> string" where
  "trimAscii s = rev (dropWhile asciiSpace (rev (dropWhile asciiSpace s)))"

definition machine :: "(string \<times> string) list \<Rightarrow> env" where
  "machine lookup =
     \<lparr>Getenv = (\<lambda>name. if name = ''SystemRoot'' then windowsDir else []),
      ExpandString = Inr,
      LookPath = map_of lookup,
      Clean = (\<lambda>path. path),
      VolumeNameLen = (\<lambda>path. 0),
      TrimSpace = trimAscii,
      hashOf = (\<lambda>path algo. if path \<in> set (map snd lookup) then Some ''00'' else None)\<rparr>"

text \<open>The strings of the examples.\<close>

definition runKey :: string where
  "runKey = ''LOCAL_MACHINE'' @ backslash # ''Software'' @ backslash # ''Run''"

definition missingExe :: string where
  "missingExe = ''C:'' @ backslash # ''missing.exe -x''"

definition unclosedExe :: string where
  "unclosedExe = dquote # ''C:'' @ backslash # ''app.exe''"

definition notepadExe :: string where
  "notepadExe = windowsDir @ backslash # ''System32'' @ backslash # ''notepad.exe''"

definition goneExe :: string where
  "goneExe = ''C:'' @ backslash # ''gone.exe''"

definition appExe :: string where
  "appExe = ''C:'' @ backslash # ''Program Files'' @ backslash # ''My Application''
      @ backslash # ''app.exe''"

definition appSlash :: string where
  "appSlash = ''C:/Program Files/My Application/app.exe''"

definition appCommand :: string where
  "appCommand = appExe @ space # space # ''--flag'' @ [space, tab]"

text \<open>The same machine with a \<open>Clean\<close> that turns slashes into backslashes.\<close>

definition slashMachine :: "(string \<times> string) list \<Rightarrow> env" where
  "slashMachine lookup =
     (machine lookup)\<lparr>Clean := map (\<lambda>c. if c = CHR ''/'' then backslash else c)\<rparr>"

definition driverPath :: string where
  "driverPath = backslash # ''SystemRoot'' @ backslash # ''System32'' @ backslash # ''drivers''
      @ backslash # ''svc.sys''"

definition twiceSystem32 :: string where
  "twiceSystem32 = ''system32'' @ backslash # ''system32.dll''"

section \<open>Facts about the library functions\<close>

lemma IndexAny_less: "IndexAny s chars < int (length s)"
  by (induction s) (auto simp: Let_def)

lemma IndexAny_ge: "- 1 \<le> IndexAny s chars"
  by (induction s) (auto simp: Let_def)

lemma IndexAny_none: "IndexAny t cs < 0 \<Longrightarrow> k < length t \<Longrightarrow> t ! k \<notin> set cs"
proof (induction t arbitrary: k)
  case Nil
  then show ?case by simp
next
  case (Cons c t)
  then show ?case by (cases k) (auto simp: Let_def split: if_splits)
qed

lemma IndexAny_first:
  "0 \<le> IndexAny t cs \<Longrightarrow>
     t ! nat (IndexAny t cs) \<in> set cs \<and> (\<forall>k < nat (IndexAny t cs). t ! k \<notin> set cs)"
proof (induction t)
  case Nil
  then show ?case by simp
next
  case (Cons c t)
  show ?case
  proof (cases "c \<in> set cs")
    case True
    then show ?thesis by simp
  next
    case False
    with Cons.prems have r: "0 \<le> IndexAny t cs" and e: "IndexAny (c # t) cs = IndexAny t cs + 1"
      by (auto simp: Let_def split: if_splits)
    from r have n: "nat (IndexAny t cs + 1) = Suc (nat (IndexAny t cs))" by simp
    from Cons.IH [OF r] False show ?thesis
      unfolding e n by (auto simp: less_Suc_eq_0_disj)
  qed
qed

lemma Index_less: "substr \<noteq> [] \<Longrightarrow> Index s substr < int (length s)"
  by (induction s) (auto simp: Let_def)

lemma Index_absent: "c \<notin> set s \<Longrightarrow> Index s [c] = - 1"
  by (induction s) (auto simp: HasPrefix_def)

lemma Index_first: "c \<notin> set exe \<Longrightarrow> Index (exe @ c # tail) [c] = int (length exe)"
  by (induction exe) (auto simp: HasPrefix_def)

lemma toLowerByte_fixed [simp]:
  "toLowerByte backslash = backslash" "toLowerByte (CHR ''?'') = CHR ''?''"
  by (simp_all add: toLowerByte_def)

lemma ToLower_take:
  "ToLower (take n t) = x \<Longrightarrow> m \<le> n \<Longrightarrow> ToLower (take m t) = take m x"
  by (auto simp: ToLower_def take_map min_def)

lemma Replace_prefix:
  "old \<noteq> [] \<Longrightarrow> Replace (old @ r) old new = new @ Replace r old new"
  by (simp add: Replace.simps [of "old @ r"] HasPrefix_def)

lemma Replace_leading:
  assumes "0 < n" and "n \<le> length t"
  shows "Replace t (take n t) new = new @ Replace (drop n t) (take n t) new"
proof -
  from assms have "take n t \<noteq> []" by auto
  from Replace_prefix [OF this, of "drop n t" new] show ?thesis by simp
qed

lemma Replace_absent:
  "old \<noteq> [] \<Longrightarrow> (\<And>u v. r \<noteq> u @ old @ v) \<Longrightarrow> Replace r old new = r"
proof (induction r)
  case Nil
  then show ?case by (simp add: Replace.simps [of "[]"])
next
  case (Cons c r)
  have "\<not> HasPrefix (c # r) old"
  proof
    assume "HasPrefix (c # r) old"
    then have "c # r = [] @ old @ drop (length old) (c # r)"
      by (simp add: HasPrefix_def) (metis append_take_drop_id)
    with Cons.prems(2) show False by blast
  qed
  moreover have "Replace r old new = r"
  proof (rule Cons.IH [OF Cons.prems(1)])
    fix u v
    from Cons.prems(2) [of "c # u" v] show "r \<noteq> u @ old @ v" by simp
  qed
  ultimately show ?case using Cons.prems(1)
    by (simp add: Replace.simps [of "c # r"])
qed

lemma filter_upt_first:
  assumes "i < j" and "j \<le> n" and "P j" and "\<And>k. i < k \<Longrightarrow> k < j \<Longrightarrow> \<not> P k"
  shows "filter P [Suc i..<Suc n] = j # filter P [Suc j..<Suc n]"
proof -
  have "[Suc i..<Suc n] = [Suc i..<j] @ [j..<Suc n]"
    using assms(1,2) upt_add_eq_append [of "Suc i" j "Suc n - j"] by simp
  moreover have "[j..<Suc n] = j # [Suc j..<Suc n]"
    using assms(2) by (simp add: upt_conv_Cons)
  moreover have "filter P [Suc i..<j] = []"
    using assms(4) by (auto simp: filter_empty_conv)
  ultimately show ?thesis using assms(3) by simp
qed

section \<open>Facts about the search loop\<close>

lemma next_spaceIndex:
  assumes "- 1 \<le> i" and "i < int (length s)"
  defines "n \<equiv> IndexAny (sliceFrom s (i + 1)) [space, tab]"
  shows "i < (if n < 0 then int (length s) else i + (n + 1))"
    and "(if n < 0 then int (length s) else i + (n + 1)) \<le> int (length s)"
proof -
  have "int (length (sliceFrom s (i + 1))) = int (length s) - (i + 1)"
    using assms(1,2) by (auto simp: sliceFrom_def)
  then have "n < int (length s) - (i + 1)"
    using IndexAny_less [of "sliceFrom s (i + 1)" "[space, tab]"] by (simp add: n_def)
  then show "(if n < 0 then int (length s) else i + (n + 1)) \<le> int (length s)"
    by simp
  show "i < (if n < 0 then int (length s) else i + (n + 1))"
    using assms(2) by simp
qed

lemma loopBody_Again:
  assumes "loopBody env s i = Again j"
  shows "i < j" and "j \<le> int (length s)" and "i < int (length s)" and "- 1 \<le> i"
proof -
  let ?n = "IndexAny (sliceFrom s (i + 1)) [space, tab]"
  from assms have r: "i \<noteq> int (length s)" "0 \<le> i + 1" "i + 1 \<le> int (length s)"
    and j: "j = (if ?n < 0 then int (length s) else i + (?n + 1))"
    by (auto simp: loopBody_def Let_def split: if_splits option.splits)
  from r show "i < int (length s)" and "- 1 \<le> i" by simp_all
  with next_spaceIndex [of i s] show "i < j" and "j \<le> int (length s)"
    unfolding j by blast+
qed

lemma loopBody_in_range:
  assumes "- 1 \<le> i" and "i \<le> int (length s)"
  shows "loopBody env s i \<noteq> Done (Inl SliceBounds)"
proof (cases "i = int (length s)")
  case True
  then show ?thesis by (simp add: loopBody_def)
next
  case False
  with assms have "i < int (length s)" by simp
  from next_spaceIndex [OF assms(1) this] assms show ?thesis
    by (auto simp: loopBody_def Let_def split: option.splits)
qed

lemma searchExecutable_in_range:
  "- 1 \<le> i \<Longrightarrow> i \<le> int (length s) \<Longrightarrow> searchExecutable env s i \<noteq> Inl SliceBounds"
proof (induction env s i rule: searchExecutable.induct)
  case (1 env s i)
  show ?case
  proof (cases "loopBody env s i")
    case (Done r)
    with loopBody_in_range [OF "1.prems", of env] show ?thesis
      by (simp add: searchExecutable.simps [of env s i])
  next
    case (Again j)
    from loopBody_Again [OF Again] "1.IH" [OF Again] Again show ?thesis
      by (simp add: searchExecutable.simps [of env s i])
  qed
qed

lemma searchExecutable_error:
  "- 1 \<le> i \<Longrightarrow> i \<le> int (length s) \<Longrightarrow> searchExecutable env s i = Inl err
    \<Longrightarrow> err = ExecutableNotFoundError"
proof (induction env s i rule: searchExecutable.induct)
  case (1 env s i)
  show ?case
  proof (cases "loopBody env s i")
    case (Done r)
    with "1.prems"(3) have "loopBody env s i = Done (Inl err)"
      by (simp add: searchExecutable.simps [of env s i])
    with loopBody_in_range [OF "1.prems"(1,2), of env] show ?thesis
      by (auto simp: loopBody_def Let_def split: if_splits option.splits)
  next
    case (Again j)
    from loopBody_Again [OF Again] "1.IH" [OF Again] "1.prems" Again show ?thesis
      by (simp add: searchExecutable.simps [of env s i])
  qed
qed

lemma searchPasses_enough:
  "0 \<le> i \<Longrightarrow> i \<le> int (length s) \<Longrightarrow> nat (int (length s) - i) < n
    \<Longrightarrow> searchPasses n env s i = Some (searchExecutable env s i)"
proof (induction n arbitrary: i)
  case 0
  then show ?case by simp
next
  case (Suc n)
  show ?case
  proof (cases "loopBody env s i")
    case (Done r)
    then show ?thesis by (simp add: searchExecutable.simps [of env s i])
  next
    case (Again j)
    from loopBody_Again [OF Again] Suc.prems
    have "0 \<le> j" "j \<le> int (length s)" "nat (int (length s) - j) < n" by simp_all
    from Suc.IH [OF this] Again show ?thesis
      by (simp add: searchExecutable.simps [of env s i])
  qed
qed

lemma endsAfter_step:
  assumes "i < length s"
  defines "n \<equiv> IndexAny (sliceFrom s (int i + 1)) [space, tab]"
  defines "j \<equiv> (if n < 0 then length s else i + (nat n + 1))"
  shows "endsAfter s i = j # endsAfter s j"
  unfolding endsAfter_def
proof (rule filter_upt_first)
  let ?P = "\<lambda>k. k = length s \<or> s ! k \<in> set [space, tab]"
  have d: "sliceFrom s (int i + 1) = drop (Suc i) s"
    by (simp add: sliceFrom_def nat_add_distrib)
  have nth: "drop (Suc i) s ! k = s ! (Suc i + k)" if "Suc i + k < length s" for k
    using that by simp
  have len: "int (length (drop (Suc i) s)) = int (length s) - int i - 1"
    using assms(1) by auto
  show "i < j" using assms(1) by (simp add: j_def)
  show jl: "j \<le> length s"
    using IndexAny_less [of "drop (Suc i) s" "[space, tab]"] len
    by (auto simp: j_def n_def d)
  show "?P j"
  proof (cases "n < 0")
    case True
    then show ?thesis by (simp add: j_def)
  next
    case False
    then have "0 \<le> n" by simp
    from IndexAny_first [of "drop (Suc i) s" "[space, tab]"] this
    have "drop (Suc i) s ! nat n \<in> set [space, tab]" by (simp add: n_def d)
    moreover have "Suc i + nat n < length s"
      using IndexAny_less [of "drop (Suc i) s" "[space, tab]"] len \<open>0 \<le> n\<close>
      by (simp add: n_def d)
    ultimately show ?thesis using False by (simp add: j_def nth)
  qed
  fix k assume k: "i < k" "k < j"
  from k obtain m where m: "k = Suc i + m" by (metis less_iff_Suc_add add_Suc)
  show "\<not> ?P k"
  proof (cases "n < 0")
    case True
    with k have "k < length s" by (simp add: j_def)
    moreover from this IndexAny_none [of "drop (Suc i) s" "[space, tab]" m] True
    have "s ! k \<notin> set [space, tab]" by (simp add: n_def d m)
    ultimately show ?thesis by simp
  next
    case False
    with k have mn: "m < nat n" by (simp add: j_def m)
    from k jl have kl: "k < length s" by simp
    from IndexAny_first [of "drop (Suc i) s" "[space, tab]"] False mn
    have "drop (Suc i) s ! m \<notin> set [space, tab]" by (simp add: n_def d)
    with kl show ?thesis by (simp add: m)
  qed
qed

lemma searchExecutable_firstResolved:
  "0 \<le> i \<Longrightarrow> i \<le> int (length s) \<Longrightarrow>
   searchExecutable env s i =
     (case firstResolved env s (endsAfter s (nat i)) of
        None \<Rightarrow> Inl ExecutableNotFoundError
      | Some (j, exePath) \<Rightarrow> Inr (exePath, drop (Suc j) s))"
proof (induction env s i rule: searchExecutable.induct)
  case (1 env s i)
  show ?case
  proof (cases "i = int (length s)")
    case True
    then have "loopBody env s i = Done (Inl ExecutableNotFoundError)"
      by (simp add: loopBody_def)
    then have "searchExecutable env s i = Inl ExecutableNotFoundError"
      by (simp add: searchExecutable.simps [of env s i])
    with True show ?thesis by (simp add: endsAfter_def)
  next
    case False
    with "1.prems" have il: "nat i < length s" and i: "int (nat i) = i" by simp_all
    define n where "n = IndexAny (sliceFrom s (i + 1)) [space, tab]"
    define j where "j = (if n < 0 then length s else nat i + (nat n + 1))"
    have nge: "- 1 \<le> n" by (simp add: n_def IndexAny_ge)
    have ends: "endsAfter s (nat i) = j # endsAfter s j"
      unfolding j_def n_def by (rule endsAfter_step [OF il, unfolded i])
    have j': "(if n < 0 then int (length s) else i + (n + 1)) = int j"
      using nge "1.prems" by (simp add: j_def)
    have "j \<in> set (endsAfter s (nat i))"
      by (simp add: ends)
    then have jl: "j \<le> length s"
      by (auto simp: endsAfter_def simp del: upt_Suc)
    have body: "loopBody env s i =
        (case LookPath env (take j s) of
           Some exePath \<Rightarrow> Done (Inr (exePath, drop (Suc j) s))
         | None \<Rightarrow> Again (int j))"
    proof -
      have g: "\<not> (i + 1 < 0 \<or> int (length s) < i + 1)"
        using False "1.prems" by simp
      have g': "\<not> (int j < 0 \<or> int (length s) < int j)"
        using jl by simp
      have st: "sliceTo s (int j) = take j s"
        by (simp add: sliceTo_def)
      have args: "(if int j < int (length s) then sliceFrom s (int j + 1) else []) = drop (Suc j) s"
        using jl by (simp add: sliceFrom_def nat_add_distrib)
      have "loopBody env s i =
          (case LookPath env (sliceTo s (int j)) of
             Some exePath \<Rightarrow>
               Done (Inr (exePath,
                          if int j < int (length s) then sliceFrom s (int j + 1) else []))
           | None \<Rightarrow> Again (int j))"
        unfolding loopBody_def Let_def n_def [symmetric] j' if_not_P [OF False]
          if_not_P [OF g] if_not_P [OF g']
        by (rule refl)
      then show ?thesis by (simp only: st args)
    qed
    show ?thesis
    proof (cases "LookPath env (take j s)")
      case None
      with body have a: "loopBody env s i = Again (int j)" by simp
      from "1.IH" [OF a] jl
      have "searchExecutable env s (int j) =
          (case firstResolved env s (endsAfter s j) of
             None \<Rightarrow> Inl ExecutableNotFoundError
           | Some (j, exePath) \<Rightarrow> Inr (exePath, drop (Suc j) s))"
        by simp
      with a None show ?thesis
        by (simp add: searchExecutable.simps [of env s i] ends)
    next
      case (Some exePath)
      with body show ?thesis
        by (simp add: searchExecutable.simps [of env s i] ends)
    qed
  qed
qed

section \<open>Facts about the search of the specification\<close>

lemma candidateEnds_ascending: "sorted_wrt (<) (candidateEnds s)"
  unfolding candidateEnds_def by (rule sorted_wrt_filter) (rule sorted_wrt_upt)

lemma candidateEnds_whole: "s \<noteq> [] \<Longrightarrow> length s \<in> set (candidateEnds s)"
  by (cases s) (auto simp: candidateEnds_def)

lemma firstResolved_none:
  "firstResolved env s ends = None \<longleftrightarrow> (\<forall>i \<in> set ends. LookPath env (take i s) = None)"
  by (induction ends) (auto split: option.splits)

lemma firstResolved_first:
  "firstResolved env s ends = Some (i, exePath) \<Longrightarrow>
     \<exists>before after. ends = before @ i # after
       \<and> (\<forall>k \<in> set before. LookPath env (take k s) = None)
       \<and> LookPath env (take i s) = Some exePath"
proof (induction ends)
  case Nil
  then show ?case by simp
next
  case (Cons e ends)
  show ?case
  proof (cases "LookPath env (take e s)")
    case None
    with Cons.prems have "firstResolved env s ends = Some (i, exePath)" by simp
    from Cons.IH [OF this] obtain before after where
      "ends = before @ i # after" "\<forall>k \<in> set before. LookPath env (take k s) = None"
      "LookPath env (take i s) = Some exePath"
      by blast
    with None have "e # ends = (e # before) @ i # after
        \<and> (\<forall>k \<in> set (e # before). LookPath env (take k s) = None)
        \<and> LookPath env (take i s) = Some exePath"
      by simp
    then show ?thesis by blast
  next
    case (Some p)
    with Cons.prems have "e # ends = [] @ i # ends
        \<and> (\<forall>k \<in> set []. LookPath env (take k s) = None)
        \<and> LookPath env (take i s) = Some exePath"
      by simp
    then show ?thesis by blast
  qed
qed

text \<open>
  A space or a tab at index 0 ends the empty prefix, which is no candidate. Counting it
  as one changes nothing on a machine whose locator does not resolve the empty name.
\<close>

lemma empty_candidate_never_accepted:
  "LookPath env [] = None \<Longrightarrow>
     firstResolved env s (0 # candidateEnds s) = firstResolved env s (candidateEnds s)"
  by simp

section \<open>Facts about the replacements\<close>

lemma stripKernelPrefix_append: "stripKernelPrefix (kernelPrefix @ t) = t"
  by (simp add: stripKernelPrefix_def HasPrefix_def sliceFrom_def kernelPrefix_def)

lemma root_token_not_kernelPrefix:
  assumes "ToLower (take 11 t) = backslash # ''systemroot'' \<or> ToLower (take 8 t) = ''system32''"
  shows "\<not> HasPrefix t kernelPrefix"
proof
  assume "HasPrefix t kernelPrefix"
  moreover have "length kernelPrefix = 4" "ToLower kernelPrefix = kernelPrefix"
    by (simp_all add: kernelPrefix_def ToLower_def)
  ultimately have k: "ToLower (take 4 t) = kernelPrefix"
    by (simp add: HasPrefix_def)
  from assms show False
  proof
    assume "ToLower (take 11 t) = backslash # ''systemroot''"
    from ToLower_take [OF this, of 4] k show False by (simp add: kernelPrefix_def)
  next
    assume "ToLower (take 8 t) = ''system32''"
    from ToLower_take [OF this, of 4] k show False by (simp add: kernelPrefix_def)
  qed
qed

lemma system32_not_systemroot:
  assumes "ToLower (take 8 t) = ''system32''"
  shows "ToLower (take 11 t) \<noteq> backslash # ''systemroot''"
proof
  assume "ToLower (take 11 t) = backslash # ''systemroot''"
  from ToLower_take [OF this, of 1] ToLower_take [OF assms, of 1] show False by simp
qed

lemma kernelPrefix_hides_root:
  "substSystemRoot env (kernelPrefix @ t) = kernelPrefix @ t"
  "substSystem32 env (kernelPrefix @ t) = kernelPrefix @ t"
  by (simp_all add: substSystemRoot_def substSystem32_def sliceTo_def kernelPrefix_def ToLower_def)

section \<open>Facts about \<open>parsePath\<close> and \<open>stringToAutorun\<close>\<close>

lemma resolve_no_panic: "resolve env entryValue \<noteq> Inl SliceBounds"
proof (cases "HasPrefix entryValue [dquote]")
  case True
  then have "int (length (sliceFrom entryValue 1)) = int (length entryValue) - 1"
    by (auto simp: HasPrefix_def sliceFrom_def)
  with Index_less [of "[dquote]" "sliceFrom entryValue 1"] True show ?thesis
    by (simp add: resolve_def Let_def)
next
  case False
  with searchExecutable_in_range [of 0 entryValue env] show ?thesis
    by (auto simp: resolve_def split: sum.splits)
qed

lemma parsePath_no_panic: "parsePath env entryValue \<noteq> Inl SliceBounds"
  using resolve_no_panic
  by (auto simp: parsePath_def normalizer_def split: sum.splits)

lemma stringToAutorun_fields:
  "stringToAutorun env entryType entryLocation entryValue toParse entry =
     (let p = (if toParse then
                 (case parsePath env entryValue of
                    Inr (executable, args) \<Rightarrow> (executable, args)
                  | Inl err \<Rightarrow> (entryValue, []))
               else (entryValue, []))
      in \<lparr>Type = entryType,
          Location = entryLocation,
          ImagePath = fst p,
          ImageName = Base env (fst p),
          Arguments = snd p,
          MD5 = fst (HashFile env (fst p) ''md5''),
          SHA1 = fst (HashFile env (fst p) ''sha1''),
          SHA256 = fst (HashFile env (fst p) ''sha256''),
          Entry = entry,
          LaunchString = entryValue\<rparr>)"
  by (simp add: stringToAutorun_def Let_def split: prod.splits)

section \<open>The record keeps the raw value\<close>

text \<open>
  C1. Whatever the parse flag and whatever \<open>parsePath\<close> returns, the field
  \<open>LaunchString\<close> of the record that \<open>stringToAutorun\<close> builds is the raw value it
  was given, byte for byte.
\<close>

theorem LaunchString_is_raw_value:
  "LaunchString (stringToAutorun env entryType entryLocation entryValue toParse entry) = entryValue"
  by (simp add: stringToAutorun_fields Let_def)

section \<open>Failures of \<open>parsePath\<close> stay inside \<open>stringToAutorun\<close>\<close>

text \<open>
  C2. With the parse flag set, whenever \<open>parsePath\<close> fails, with whatever error,
  \<open>stringToAutorun\<close> still returns a record: its \<open>ImagePath\<close> is the raw value
  unchanged and its \<open>Arguments\<close> is empty. The failure is an error value that
  \<open>stringToAutorun\<close> tests and drops, never a panic, so nothing reaches the caller.
\<close>

theorem parse_failure_degrades:
  assumes "parsePath env entryValue = Inl err"
  shows "ImagePath (stringToAutorun env entryType entryLocation entryValue True entry) = entryValue
    \<and> Arguments (stringToAutorun env entryType entryLocation entryValue True entry) = []
    \<and> err \<noteq> SliceBounds"
  using assms parsePath_no_panic [of env entryValue]
  by (simp add: stringToAutorun_fields)

theorem parse_failure_degrades_witness:
  "parsePath (machine []) missingExe = Inl ExecutableNotFoundError
   \<and> ImagePath (stringToAutorun (machine []) ''run_key'' runKey missingExe True ''updater'')
       = missingExe
   \<and> Arguments (stringToAutorun (machine []) ''run_key'' runKey missingExe True ''updater'') = []"
proof -
  have h: "parsePath (machine []) missingExe = Inl ExecutableNotFoundError"
    by code_simp
  from parse_failure_degrades [OF h] h show ?thesis by simp
qed

section \<open>The unquoted executable\<close>

text \<open>
  C3. On every expanded string that does not start with a quote, \<open>resolve\<close> is the
  progressive-prefix search: it tries the prefixes that end before a space or a tab,
  and last the whole string, from the shortest to the longest, and accepts the first
  one the locator resolves. It returns the rest of the string after the space or tab
  that ends the accepted prefix, with the white space at both ends trimmed off, as the
  arguments, and the cleaned path of what the locator found as the executable. It fails
  with "executable not found" when no prefix resolves, not even the whole string.
\<close>

theorem resolve_is_prefixSearch:
  assumes "\<not> HasPrefix entryValue [dquote]"
  shows "resolve env entryValue = prefixSearch env entryValue"
proof -
  have "candidateEnds entryValue = endsAfter entryValue 0"
    by (simp add: candidateEnds_def endsAfter_def)
  with assms searchExecutable_firstResolved [of 0 entryValue env] show ?thesis
    by (simp add: resolve_def prefixSearch_def finish_def cleanPath_def split: option.splits)
qed

theorem resolve_is_prefixSearch_witness:
  "\<not> HasPrefix appCommand [dquote]
   \<and> candidateEnds appCommand = [10, 19, 39, 40, 47, 48, 49]
   \<and> drop 40 appCommand = space # ''--flag'' @ [space, tab]
   \<and> resolve (slashMachine [(appExe, appSlash), (appSlash, appSlash)]) appCommand
       = Inr (appExe, ''--flag'')
   \<and> appSlash \<noteq> appExe
   \<and> resolve (machine [(take 10 appExe, take 10 appExe @ ''.exe''), (appExe, appExe)])
         appCommand
       = Inr (take 10 appExe @ ''.exe'', drop 11 appExe @ ''  --flag'')
   \<and> resolve (machine []) appCommand = Inl ExecutableNotFoundError"
proof -
  have h: "\<not> HasPrefix appCommand [dquote]"
    by code_simp
  have c: "candidateEnds appCommand = [10, 19, 39, 40, 47, 48, 49]"
    by code_simp
  have d: "drop 40 appCommand = space # ''--flag'' @ [space, tab]"
    by code_simp
  have p: "prefixSearch (slashMachine [(appExe, appSlash), (appSlash, appSlash)]) appCommand
      = Inr (appExe, ''--flag'')"
    by code_simp
  have n: "appSlash \<noteq> appExe"
    by code_simp
  have q: "prefixSearch (machine [(take 10 appExe, take 10 appExe @ ''.exe''), (appExe, appExe)])
        appCommand
      = Inr (take 10 appExe @ ''.exe'', drop 11 appExe @ ''  --flag'')"
    by code_simp
  have r: "prefixSearch (machine []) appCommand = Inl ExecutableNotFoundError"
    by code_simp
  from h c d p n q r show ?thesis
    by (simp only: resolve_is_prefixSearch [OF h] simp_thms)
qed

section \<open>The quoted executable\<close>

text \<open>
  C4, as the code has it. For a string that starts with a quote, with \<open>exe\<close> up to
  the next quote and \<open>tail\<close> after it, \<open>resolve\<close> accepts \<open>exe\<close> without asking the
  locator whether it exists and returns \<open>tail\<close> trimmed as the arguments. The
  executable it returns is \<open>exe\<close> as written when the locator does not resolve
  \<open>exe\<close>, and the cleaned path the locator resolves \<open>exe\<close> to when it does.
\<close>

theorem quoted_executable:
  assumes "dquote \<notin> set exe"
  shows "resolve env (dquote # exe @ dquote # tail) =
    Inr (case LookPath env exe of None \<Rightarrow> exe | Some found \<Rightarrow> Clean env found,
         TrimSpace env tail)"
proof -
  let ?s = "dquote # exe @ dquote # tail"
  have q: "HasPrefix ?s [dquote]" by (simp add: HasPrefix_def)
  have i: "Index (sliceFrom ?s 1) [dquote] = int (length exe)"
    using assms by (simp add: sliceFrom_def Index_first)
  have e: "slice ?s 1 (int (length exe) + 1) = exe"
    by (simp add: slice_def nat_add_distrib)
  have a: "sliceFrom ?s (int (length exe) + 2) = tail"
    by (simp add: sliceFrom_def nat_add_distrib)
  show ?thesis
    unfolding resolve_def if_P [OF q] Let_def i e a
    by (simp add: finish_def cleanPath_def split: option.splits)
qed

theorem quoted_executable_witness:
  "dquote \<notin> set goneExe
   \<and> resolve (machine [(''notepad'', notepadExe)]) (dquote # goneExe @ dquote # '' /s '')
       = Inr (goneExe, ''/s'')"
proof -
  have h: "dquote \<notin> set goneExe" by (simp add: goneExe_def)
  have l: "LookPath (machine [(''notepad'', notepadExe)]) goneExe = None"
    by (simp add: machine_def goneExe_def)
  have t: "TrimSpace (machine [(''notepad'', notepadExe)]) '' /s '' = ''/s''"
    by code_simp
  from quoted_executable [OF h, of "machine [(''notepad'', notepadExe)]" "'' /s ''"] h l t
  show ?thesis by simp
qed

text \<open>
  Where the locator resolves the quoted name, the executable returned is not the name
  between the quotes: \<open>"notepad" /s\<close> gives the path of \<open>notepad.exe\<close>.
\<close>

theorem quoted_executable_replaced:
  "resolve (machine [(''notepad'', notepadExe)]) (dquote # ''notepad'' @ dquote # '' /s'')
     = Inr (notepadExe, ''/s'')
   \<and> resolve (machine [(''notepad'', notepadExe)]) (dquote # ''notepad'' @ dquote # '' /s'')
     \<noteq> Inr (''notepad'', ''/s'')"
  by code_simp

section \<open>The order of the replacements\<close>

text \<open>
  C5. The kernel prefix is cut off before the root tokens are looked for: for every
  \<open>t\<close>, the replacements on the prefix followed by \<open>t\<close> are the two substitutions
  applied to \<open>t\<close>. So when \<open>t\<close> begins with \<open>systemroot\<close> after a backslash or with
  \<open>system32\<close>, in any case, a token that neither substitution would find behind the
  prefix, the string with the prefix is replaced and expanded exactly as \<open>t\<close> is, the
  leading token giving way to the system root.
\<close>

theorem kernel_prefix_stripped_first:
  assumes "(11 \<le> length t \<and> ToLower (sliceTo t 11) = backslash # ''systemroot'')
         \<or> (8 \<le> length t \<and> ToLower (sliceTo t 8) = ''system32'')"
  shows "replaceRoots env (kernelPrefix @ t) = substSystem32 env (substSystemRoot env t)
    \<and> replaceRoots env (kernelPrefix @ t) = replaceRoots env t
    \<and> normalizer env (kernelPrefix @ t) = normalizer env t
    \<and> substSystem32 env (substSystemRoot env (kernelPrefix @ t)) = kernelPrefix @ t
    \<and> (11 \<le> length t \<and> ToLower (sliceTo t 11) = backslash # ''systemroot'' \<longrightarrow>
         replaceRoots env (kernelPrefix @ t) =
           substSystem32 env (Getenv env ''SystemRoot''
             @ Replace (sliceFrom t 11) (sliceTo t 11) (Getenv env ''SystemRoot'')))
    \<and> (8 \<le> length t \<and> ToLower (sliceTo t 8) = ''system32'' \<longrightarrow>
         replaceRoots env (kernelPrefix @ t) =
           (Getenv env ''SystemRoot'' @ backslash # ''System32'')
             @ Replace (sliceFrom t 8) (sliceTo t 8)
                 (Getenv env ''SystemRoot'' @ backslash # ''System32''))"
proof -
  from assms have "ToLower (take 11 t) = backslash # ''systemroot'' \<or> ToLower (take 8 t) = ''system32''"
    by (auto simp: sliceTo_def)
  from root_token_not_kernelPrefix [OF this] have s: "stripKernelPrefix t = t"
    by (simp add: stripKernelPrefix_def)
  have eq: "replaceRoots env (kernelPrefix @ t) = replaceRoots env t"
    by (simp add: replaceRoots_def stripKernelPrefix_append s)
  have root: "replaceRoots env (kernelPrefix @ t) =
      substSystem32 env (Getenv env ''SystemRoot''
        @ Replace (sliceFrom t 11) (sliceTo t 11) (Getenv env ''SystemRoot''))"
    if "11 \<le> length t" "ToLower (sliceTo t 11) = backslash # ''systemroot''"
    using that Replace_leading [of 11 t "Getenv env ''SystemRoot''"]
    by (simp add: replaceRoots_def stripKernelPrefix_append substSystemRoot_def
        sliceTo_def sliceFrom_def)
  have sys: "replaceRoots env (kernelPrefix @ t) =
      (Getenv env ''SystemRoot'' @ backslash # ''System32'')
        @ Replace (sliceFrom t 8) (sliceTo t 8) (Getenv env ''SystemRoot'' @ backslash # ''System32'')"
    if "8 \<le> length t" "ToLower (sliceTo t 8) = ''system32''"
  proof -
    from that have l: "ToLower (take 8 t) = ''system32''" by (simp add: sliceTo_def)
    from system32_not_systemroot [OF l] have "substSystemRoot env t = t"
      by (simp add: substSystemRoot_def sliceTo_def)
    with that Replace_leading [of 8 t "Getenv env ''SystemRoot'' @ backslash # ''System32''"]
    show ?thesis
      by (simp add: replaceRoots_def stripKernelPrefix_append substSystem32_def
          sliceTo_def sliceFrom_def)
  qed
  have "replaceRoots env (kernelPrefix @ t) = substSystem32 env (substSystemRoot env t)"
    by (simp add: replaceRoots_def stripKernelPrefix_append)
  with eq root sys show ?thesis
    by (simp add: normalizer_def kernelPrefix_hides_root)
qed

theorem kernel_prefix_stripped_first_witness:
  "11 \<le> length driverPath \<and> ToLower (sliceTo driverPath 11) = backslash # ''systemroot''
   \<and> replaceRoots (machine []) (kernelPrefix @ driverPath)
       = windowsDir @ backslash # ''System32'' @ backslash # ''drivers'' @ backslash # ''svc.sys''
   \<and> replaceRoots (machine []) (kernelPrefix @ driverPath) = replaceRoots (machine []) driverPath
   \<and> substSystem32 (machine []) (substSystemRoot (machine []) (kernelPrefix @ driverPath))
       = kernelPrefix @ driverPath"
proof -
  have h: "11 \<le> length driverPath \<and> ToLower (sliceTo driverPath 11) = backslash # ''systemroot''"
    by code_simp
  have v: "replaceRoots (machine []) driverPath
      = windowsDir @ backslash # ''System32'' @ backslash # ''drivers'' @ backslash # ''svc.sys''"
    by code_simp
  from kernel_prefix_stripped_first [OF disjI1 [OF h], of "machine []"]
  have e: "replaceRoots (machine []) (kernelPrefix @ driverPath) = replaceRoots (machine []) driverPath"
    and k: "substSystem32 (machine []) (substSystemRoot (machine []) (kernelPrefix @ driverPath))
      = kernelPrefix @ driverPath"
    by blast+
  from h v e k show ?thesis by (simp only: simp_thms)
qed

section \<open>The \<open>system32\<close> token\<close>

text \<open>
  Where the eight bytes that lead the string do not occur in it again, the leading
  \<open>system32\<close> becomes the system root followed by \<open>\System32\<close> and the rest of the
  string stays as it is.
\<close>

lemma system32_substituted_once:
  assumes "8 \<le> length s" and "ToLower (sliceTo s 8) = ''system32''"
    and "\<And>u v. sliceFrom s 8 \<noteq> u @ sliceTo s 8 @ v"
  shows "replaceRoots env s = Getenv env ''SystemRoot'' @ backslash # ''System32'' @ sliceFrom s 8"
proof -
  from assms(2) have l: "ToLower (take 8 s) = ''system32''" by (simp add: sliceTo_def)
  then have "\<not> HasPrefix s kernelPrefix" by (simp add: root_token_not_kernelPrefix)
  then have a: "stripKernelPrefix s = s" by (simp add: stripKernelPrefix_def)
  from system32_not_systemroot [OF l] have b: "substSystemRoot env s = s"
    by (simp add: substSystemRoot_def sliceTo_def)
  from assms(1) have "sliceTo s 8 \<noteq> []" by (auto simp: sliceTo_def)
  from Replace_absent [OF this, of "sliceFrom s 8"] assms(3)
  have "Replace (sliceFrom s 8) (sliceTo s 8) (Getenv env ''SystemRoot'' @ backslash # ''System32'')
      = sliceFrom s 8"
    by blast
  with assms(1,2) Replace_leading [of 8 s "Getenv env ''SystemRoot'' @ backslash # ''System32''"]
  show ?thesis
    by (simp add: replaceRoots_def a b substSystem32_def sliceTo_def sliceFrom_def)
qed

text \<open>
  C6. A leading \<open>system32\<close> is to become the system root followed by \<open>\System32\<close>
  with the rest of the string unchanged. Line 41 passes \<open>-1\<close> to \<open>strings.Replace\<close>,
  which replaces every instance of the leading eight bytes, not only the leading one: on
  \<open>system32\system32.dll\<close> the file name is rewritten as well.
\<close>

theorem system32_replaced_everywhere:
  "replaceRoots (machine []) twiceSystem32
     = windowsDir @ backslash # ''System32'' @ backslash # windowsDir @ backslash # ''System32.dll''
   \<and> normalizer (machine []) twiceSystem32
     = Inr (windowsDir @ backslash # ''System32'' @ backslash # windowsDir
            @ backslash # ''System32.dll'')
   \<and> replaceRoots (machine []) twiceSystem32
     \<noteq> windowsDir @ backslash # ''System32'' @ backslash # ''system32.dll''"
  by code_simp

section \<open>A quote that is never closed\<close>

text \<open>
  C7. When the string handed to the resolver starts with a quote and no further quote
  follows, \<open>resolve\<close> fails with the unclosed-quote error: it returns no executable and
  no arguments. \<open>parsePath\<close> fails in the same way on every raw value that normalizes
  to such a string.
\<close>

theorem unclosed_quote_fails:
  assumes "HasPrefix entryValue [dquote]" and "dquote \<notin> set (sliceFrom entryValue 1)"
  shows "resolve env entryValue = Inl UnclosedQuoteError
    \<and> (\<forall>raw. raw \<noteq> [] \<and> normalizer env raw = Inr entryValue
          \<longrightarrow> parsePath env raw = Inl UnclosedQuoteError)"
proof -
  have "resolve env entryValue = Inl UnclosedQuoteError"
    using assms by (simp add: resolve_def Index_absent)
  then show ?thesis by (simp add: parsePath_def)
qed

theorem unclosed_quote_fails_witness:
  "HasPrefix unclosedExe [dquote] \<and> dquote \<notin> set (sliceFrom unclosedExe 1)
   \<and> resolve (machine [(tl unclosedExe, tl unclosedExe)]) unclosedExe = Inl UnclosedQuoteError
   \<and> parsePath (machine [(tl unclosedExe, tl unclosedExe)]) unclosedExe = Inl UnclosedQuoteError"
proof -
  have h: "HasPrefix unclosedExe [dquote]" "dquote \<notin> set (sliceFrom unclosedExe 1)"
    by (simp_all add: unclosedExe_def HasPrefix_def sliceFrom_def)
  have n: "unclosedExe \<noteq> []
      \<and> normalizer (machine [(tl unclosedExe, tl unclosedExe)]) unclosedExe = Inr unclosedExe"
    by code_simp
  from unclosed_quote_fails [OF h, of "machine [(tl unclosedExe, tl unclosedExe)]"] h n
  show ?thesis by blast
qed

section \<open>The empty raw value\<close>

text \<open>
  C8. For the empty raw value with the parse flag set, \<open>parsePath\<close> fails with the
  empty-input error, and \<open>stringToAutorun\<close> still returns a record; on a machine where
  the empty path cannot be hashed, its \<open>ImagePath\<close>, its \<open>Arguments\<close> and its three
  digests are empty strings.
\<close>

theorem empty_value_record:
  assumes "hashOf env [] ''md5'' = None" and "hashOf env [] ''sha1'' = None"
    and "hashOf env [] ''sha256'' = None"
  shows "parsePath env [] = Inl EmptyInputError
    \<and> ImagePath (stringToAutorun env entryType entryLocation [] True entry) = []
    \<and> Arguments (stringToAutorun env entryType entryLocation [] True entry) = []
    \<and> MD5 (stringToAutorun env entryType entryLocation [] True entry) = []
    \<and> SHA1 (stringToAutorun env entryType entryLocation [] True entry) = []
    \<and> SHA256 (stringToAutorun env entryType entryLocation [] True entry) = []"
  using assms by (simp add: stringToAutorun_fields parsePath_def HashFile_def)

theorem empty_value_record_witness:
  "hashOf (machine [(''notepad'', notepadExe)]) [] ''md5'' = None
   \<and> hashOf (machine [(''notepad'', notepadExe)]) notepadExe ''md5'' = Some ''00''
   \<and> parsePath (machine [(''notepad'', notepadExe)]) [] = Inl EmptyInputError
   \<and> ImagePath (stringToAutorun (machine [(''notepad'', notepadExe)]) ''service'' runKey [] True []) = []
   \<and> Arguments (stringToAutorun (machine [(''notepad'', notepadExe)]) ''service'' runKey [] True []) = []
   \<and> MD5 (stringToAutorun (machine [(''notepad'', notepadExe)]) ''service'' runKey [] True []) = []
   \<and> SHA1 (stringToAutorun (machine [(''notepad'', notepadExe)]) ''service'' runKey [] True []) = []
   \<and> SHA256 (stringToAutorun (machine [(''notepad'', notepadExe)]) ''service'' runKey [] True []) = []"
proof -
  have h: "hashOf (machine [(''notepad'', notepadExe)]) [] algo = None" for algo
    by (simp add: machine_def notepadExe_def)
  have d: "hashOf (machine [(''notepad'', notepadExe)]) notepadExe ''md5'' = Some ''00''"
    by (simp add: machine_def)
  from empty_value_record [OF h h h, of "''service''" runKey "[]"] h d show ?thesis
    by simp
qed

section \<open>The search loop is left after finitely many passes\<close>

text \<open>
  C9. The search loop of \<open>parsePath\<close> terminates on every string: entered with
  \<open>spaceIndex = 0\<close> it is left after at most one pass more than the string has bytes,
  either at the \<open>break\<close> with an executable and its arguments or with the error
  "executable not found"; and a pass that goes round again has moved \<open>spaceIndex\<close>
  strictly forward and not beyond the length of the string.
\<close>

theorem search_loop_terminates:
  "(\<exists>result. searchPasses (Suc (length entryValue)) env entryValue 0 = Some result
      \<and> searchExecutable env entryValue 0 = result
      \<and> (result = Inl ExecutableNotFoundError
          \<or> (\<exists>executable arguments. result = Inr (executable, arguments))))
   \<and> (\<forall>spaceIndex spaceIndex'. loopBody env entryValue spaceIndex = Again spaceIndex'
        \<longrightarrow> spaceIndex < spaceIndex' \<and> spaceIndex' \<le> int (length entryValue))"
proof -
  have "searchPasses (Suc (length entryValue)) env entryValue 0
      = Some (searchExecutable env entryValue 0)"
    by (rule searchPasses_enough) simp_all
  moreover have "searchExecutable env entryValue 0 = Inl ExecutableNotFoundError
      \<or> (\<exists>executable arguments. searchExecutable env entryValue 0 = Inr (executable, arguments))"
  proof (cases "searchExecutable env entryValue 0")
    case (Inl err)
    with searchExecutable_error [of 0 entryValue env err] show ?thesis by simp
  next
    case (Inr r)
    then show ?thesis by (cases r) simp
  qed
  ultimately show ?thesis using loopBody_Again by blast
qed

theorem search_loop_terminates_witness:
  "searchPasses (Suc (length missingExe)) (machine []) missingExe 0
     = Some (Inl ExecutableNotFoundError)
   \<and> searchPasses 2 (machine []) missingExe 0 = None
   \<and> loopBody (machine []) missingExe 0 = Again 14
   \<and> (0 :: int) < 14 \<and> 14 \<le> int (length missingExe)"
proof -
  have a: "loopBody (machine []) missingExe 0 = Again 14" by code_simp
  have b: "searchPasses 2 (machine []) missingExe 0 = None" by code_simp
  have c: "searchExecutable (machine []) missingExe 0 = Inl ExecutableNotFoundError" by code_simp
  note t = search_loop_terminates [of missingExe "machine []"]
  from t a have d: "(0 :: int) < 14 \<and> 14 \<le> int (length missingExe)" by blast
  from t c have "searchPasses (Suc (length missingExe)) (machine []) missingExe 0
      = Some (Inl ExecutableNotFoundError)"
    by (auto simp del: searchPasses.simps)
  with a b d show ?thesis by simp
qed

section \<open>The name of an empty image path\<close>

text \<open>
  C10. When the \<open>ImagePath\<close> of the record is the empty string, as it is for an empty
  raw value, its \<open>ImageName\<close> is the one-character string of a dot, which is what
  \<open>filepath.Base\<close> gives for the empty path, and not the empty string.
\<close>

theorem empty_ImagePath_has_dot_name:
  assumes "ImagePath (stringToAutorun env entryType entryLocation entryValue toParse entry) = []"
  shows "ImageName (stringToAutorun env entryType entryLocation entryValue toParse entry) = ''.''"
  using assms by (simp add: stringToAutorun_fields Let_def Base_def)

theorem empty_ImagePath_has_dot_name_witness:
  "ImagePath (stringToAutorun (machine []) ''service'' runKey [] True []) = []
   \<and> ImageName (stringToAutorun (machine []) ''service'' runKey [] True []) = ''.''
   \<and> ImageName (stringToAutorun (machine []) ''service'' runKey [] True []) \<noteq> []"
proof -
  have h: "ImagePath (stringToAutorun (machine []) ''service'' runKey [] True []) = []"
    by (simp add: stringToAutorun_fields parsePath_def)
  from empty_ImagePath_has_dot_name [OF h] h show ?thesis by simp
qed

end
